theory Spec2Isabelle
  imports Main "HOL-Library.Sublist"
begin

section \<open>Python values used by the pipeline\<close>

text \<open>
  Strings are \<^typ>\<open>string\<close>; a character stands for the code point of the same number
  (0 to 255). The substring test \<^verbatim>\<open>a in b\<close> of Python is \<^const>\<open>sublist\<close>.
  An exception is a value; its argument is what the source reads from it (the missing key
  of a \<^verbatim>\<open>KeyError\<close>, the message of the others).
\<close>

datatype py_exception =
    IndexError string
  | KeyError string
  | ValueError string
  | Exception string

definition sq :: char where
  "sq = CHR 0x27"

definition dq :: char where
  "dq = CHR 0x22"

definition backslash :: char where
  "backslash = CHR 0x5C"

definition newline :: char where
  "newline = CHR 0x0A"

definition lbrace :: char where
  "lbrace = CHR 0x7B"

definition rbrace :: char where
  "rbrace = CHR 0x7D"

text \<open>\<^verbatim>\<open>str.lower()\<close> on the code points below 256: A-Z and the accented capitals
  0xC0-0xDE (0xD7, the multiplication sign, apart) move up by 32.\<close>

definition lower_char :: "char \<Rightarrow> char" where
  "lower_char c =
     (let n = (of_char c :: nat) in
      if (65 \<le> n \<and> n \<le> 90) \<or> (192 \<le> n \<and> n \<le> 222 \<and> n \<noteq> 215)
      then char_of (n + 32) else c)"

definition lower :: "string \<Rightarrow> string" where
  "lower s = map lower_char s"

text \<open>\<^verbatim>\<open>sep.join(xs)\<close>.\<close>

fun join :: "string \<Rightarrow> string list \<Rightarrow> string" where
  "join sep [] = []"
| "join sep [x] = x"
| "join sep (x # y # ys) = x @ sep @ join sep (y # ys)"

text \<open>\<^verbatim>\<open>repr\<close> of a string: single quotes, unless the string has a single quote and
  no double quote; the quote, the backslash and the control characters are escaped.\<close>

definition hex_digit :: "nat \<Rightarrow> char" where
  "hex_digit n = ''0123456789abcdef'' ! (n mod 16)"

definition repr_char :: "char \<Rightarrow> char \<Rightarrow> string" where
  "repr_char q c =
     (let n = (of_char c :: nat) in
      if c = q \<or> c = backslash then [backslash, c]
      else if n = 9 then [backslash, CHR ''t'']
      else if n = 10 then [backslash, CHR ''n'']
      else if n = 13 then [backslash, CHR ''r'']
      else if n < 32 \<or> n = 127 \<or> (128 \<le> n \<and> n \<le> 160) \<or> n = 173
        then [backslash, CHR ''x'', hex_digit (n div 16), hex_digit n]
      else [c])"

definition py_repr :: "string \<Rightarrow> string" where
  "py_repr s =
     (let q = (if sq \<in> set s \<and> dq \<notin> set s then dq else sq)
      in q # concat (map (repr_char q) s) @ [q])"

text \<open>\<^verbatim>\<open>str(e)\<close>: a \<^verbatim>\<open>KeyError\<close> prints the \<^verbatim>\<open>repr\<close> of its key.\<close>

fun exc_str :: "py_exception \<Rightarrow> string" where
  "exc_str (IndexError m) = m"
| "exc_str (KeyError k) = py_repr k"
| "exc_str (ValueError m) = m"
| "exc_str (Exception m) = m"

section \<open>The state schema\<close>

text \<open>A job is the dictionary with the keys \<^verbatim>\<open>utility\<close>, \<^verbatim>\<open>target\<close> and
  \<^verbatim>\<open>parameters\<close>, in this order, that \<^verbatim>\<open>plan_jobs\<close> and \<^verbatim>\<open>perform_task\<close>
  build (\<^verbatim>\<open>run\<close> starts from an empty queue, so no other dictionary enters it); the
  scope is a dictionary from a key to a list of strings; \<^verbatim>\<open>CyberAuditData\<close> is the
  typed dictionary of the graph's state.\<close>

record job =
  utility :: string
  target :: string
  parameters :: string

type_synonym scope = "string \<rightharpoonup> string list"

record CyberAuditData =
  directive :: string
  job_queue :: "job list"
  activity_logs :: "string list"
  assessment_scope :: scope

text \<open>A call that mutates the state either returns it or raises; the exception is paired
  with the state as it was when the exception left the function.\<close>

type_synonym 'a raised = "(py_exception \<times> 'a) + 'a"

text \<open>\<^verbatim>\<open>str(job)\<close>, as the f-string of the failure entry prints the dictionary.\<close>

definition job_str :: "job \<Rightarrow> string" where
  "job_str j =
     [lbrace] @ py_repr ''utility'' @ '': '' @ py_repr (utility j) @ '', ''
       @ py_repr ''target'' @ '': '' @ py_repr (target j) @ '', ''
       @ py_repr ''parameters'' @ '': '' @ py_repr (parameters j) @ [rbrace]"

section \<open>Planning\<close>

definition nmap_job :: "string \<Rightarrow> job" where
  "nmap_job t = \<lparr>utility = ''nmap'', target = t, parameters = ''-Pn -p 80,443,22,8080''\<rparr>"

definition gobuster_job :: "string \<Rightarrow> job" where
  "gobuster_job t =
     \<lparr>utility = ''gobuster'', target = t,
      parameters = ''dir -u http://{target} -w /usr/share/wordlists/dirb/common.txt''\<rparr>"

text \<open>\<^verbatim>\<open>self.assessment_scope["domains"][0]\<close>: a missing key and an empty list raise.\<close>

definition first_domain :: "scope \<Rightarrow> py_exception + string" where
  "first_domain sc =
     (case sc ''domains'' of
        None \<Rightarrow> Inl (KeyError ''domains'')
      | Some [] \<Rightarrow> Inl (IndexError ''list index out of range'')
      | Some (x # xs) \<Rightarrow> Inr x)"

text \<open>The two rules of \<^verbatim>\<open>plan_jobs\<close>, in the order of the source, each with its
  condition on the lowered directive. The dictionary of the new job is built, and the scope
  indexed, before the job is appended.\<close>

definition scan_requested :: "string \<Rightarrow> bool" where
  "scan_requested d \<longleftrightarrow> sublist ''scan'' (lower d) \<and> sublist ''ports'' (lower d)"

definition discover_requested :: "string \<Rightarrow> bool" where
  "discover_requested d \<longleftrightarrow> sublist ''discover directories'' (lower d)"

definition scan_rule :: "scope \<Rightarrow> CyberAuditData \<Rightarrow> CyberAuditData raised" where
  "scan_rule sc data =
     (if scan_requested (directive data)
      then (case first_domain sc of
              Inl e \<Rightarrow> Inl (e, data)
            | Inr t \<Rightarrow> Inr (data\<lparr>job_queue := job_queue data @ [nmap_job t]\<rparr>))
      else Inr data)"

definition discover_rule :: "scope \<Rightarrow> CyberAuditData \<Rightarrow> CyberAuditData raised" where
  "discover_rule sc data =
     (if discover_requested (directive data)
      then (case first_domain sc of
              Inl e \<Rightarrow> Inl (e, data)
            | Inr t \<Rightarrow> Inr (data\<lparr>job_queue := job_queue data @ [gobuster_job t]\<rparr>))
      else Inr data)"

definition plan_jobs :: "scope \<Rightarrow> CyberAuditData \<Rightarrow> CyberAuditData raised" where
  "plan_jobs sc data =
     (if job_queue data = [] then
        (case scan_rule sc data of
           Inl r \<Rightarrow> Inl r
         | Inr data1 \<Rightarrow> discover_rule sc data1)
      else Inr data)"

section \<open>Running a utility\<close>

text \<open>\<^verbatim>\<open>template.format(target=t)\<close> for templates whose replacement fields are bare
  names or indices (no conversion, format specification, attribute or subscript, which the
  two templates of the source do not have). The scan is left to right; \<open>None\<close> is literal
  text, \<open>Some name\<close> is inside a field whose name so far is \<open>name\<close>.\<close>

definition field_value :: "string \<Rightarrow> string \<Rightarrow> py_exception + string" where
  "field_value t name =
     (if name = ''target'' then Inr t
      else if \<forall>c \<in> set name. c \<in> set ''0123456789'' then
        Inl (IndexError (''Replacement index ''
          @ (case dropWhile (\<lambda>c. c = CHR ''0'') name of [] \<Rightarrow> ''0'' | d # ds \<Rightarrow> d # ds)
          @ '' out of range for positional args tuple''))
      else Inl (KeyError name))"

fun format_scan :: "string \<Rightarrow> string option \<Rightarrow> string \<Rightarrow> py_exception + string" where
  "format_scan t None [] = Inr []"
| "format_scan t (Some name) [] =
     Inl (ValueError (''expected '' @ [sq, rbrace, sq] @ '' before end of string''))"
| "format_scan t None (c # cs) =
     (if c = lbrace then
        (case cs of
           [] \<Rightarrow> Inl (ValueError (''Single '' @ [sq, lbrace, sq] @ '' encountered in format string''))
         | c' # cs' \<Rightarrow>
             if c' = lbrace then map_sum id ((#) lbrace) (format_scan t None cs')
             else format_scan t (Some []) cs)
      else if c = rbrace then
        (case cs of
           [] \<Rightarrow> Inl (ValueError (''Single '' @ [sq, rbrace, sq] @ '' encountered in format string''))
         | c' # cs' \<Rightarrow>
             if c' = rbrace then map_sum id ((#) rbrace) (format_scan t None cs')
             else Inl (ValueError (''Single '' @ [sq, rbrace, sq] @ '' encountered in format string'')))
      else map_sum id ((#) c) (format_scan t None cs))"
| "format_scan t (Some name) (c # cs) =
     (if c = rbrace then
        (case field_value t name of
           Inl e \<Rightarrow> Inl e
         | Inr v \<Rightarrow> map_sum id ((@) v) (format_scan t None cs))
      else format_scan t (Some (name @ [c])) cs)"

definition format_target :: "string \<Rightarrow> string \<Rightarrow> py_exception + string" where
  "format_target template t = format_scan t None template"

definition simulate_nmap_scan :: "string \<Rightarrow> string" where
  "simulate_nmap_scan t =
     join [newline]
       [''Starting Nmap scan on '' @ t @ ''...'',
        ''Scanning ports: 80, 443, 22, 8080'',
        ''Discovered open ports:'',
        ''80/tcp  - HTTP'',
        ''443/tcp - HTTPS'',
        ''22/tcp  - SSH'',
        ''8080/tcp - HTTP-Alt'',
        ''Nmap scan completed.'']"

definition simulate_gobuster_scan :: "string \<Rightarrow> string" where
  "simulate_gobuster_scan t =
     join [newline]
       [''Starting Gobuster scan on '' @ t @ ''...'',
        ''Found directories:'',
        ''/admin'',
        ''/login'',
        ''/images'',
        ''/assets'',
        ''Gobuster scan completed.'']"

text \<open>\<^verbatim>\<open>run_utility\<close>: the parameters are formatted first (this is where the call can
  raise), then the output is chosen by the utility.\<close>

definition run_utility :: "job \<Rightarrow> py_exception + string" where
  "run_utility j =
     (case format_target (parameters j) (target j) of
        Inl e \<Rightarrow> Inl e
      | Inr params \<Rightarrow>
          Inr (if utility j = ''nmap'' then simulate_nmap_scan (target j)
               else if utility j = ''gobuster'' then simulate_gobuster_scan (target j)
               else ''Simulated output for '' @ utility j @ '' on '' @ target j
                      @ '' with parameters '' @ params))"

section \<open>Executing one job\<close>

text \<open>\<^verbatim>\<open>perform_task\<close>, with \<^verbatim>\<open>self.run_utility\<close> as the parameter \<open>ex\<close>: the front
  job is popped; on success the output is logged and the branching rule is applied; an
  exception of the utility is caught and logged.\<close>

definition perform_task :: "(job \<Rightarrow> py_exception + string) \<Rightarrow> CyberAuditData \<Rightarrow> CyberAuditData" where
  "perform_task ex data =
     (case job_queue data of
        [] \<Rightarrow> data
      | current_task # rest \<Rightarrow>
          (case ex current_task of
             Inr out \<Rightarrow>
               (let data1 = data\<lparr>job_queue := rest, activity_logs := activity_logs data @ [out]\<rparr>
                in if utility current_task = ''nmap''
                      \<and> (sublist ''80/tcp'' out \<or> sublist ''443/tcp'' out)
                   then data1\<lparr>job_queue := job_queue data1 @ [gobuster_job (target current_task)]\<rparr>
                   else data1)
           | Inl e \<Rightarrow>
               data\<lparr>job_queue := rest,
                    activity_logs := activity_logs data
                      @ [''Task failed: '' @ job_str current_task @ '' - '' @ exc_str e]\<rparr>))"

section \<open>The execution graph\<close>

datatype node = Initiate | Process | Complete

definition determine_next :: "CyberAuditData \<Rightarrow> node" where
  "determine_next data = (if job_queue data \<noteq> [] then Process else Complete)"

text \<open>The weight of a queue: a port-scan job counts twice, since executing it may append
  one follow-on job.\<close>

definition weight :: "job list \<Rightarrow> nat" where
  "weight q = length q + length (filter (\<lambda>j. utility j = ''nmap'') q)"

text \<open>\<^verbatim>\<open>execution_graph.invoke\<close>, following the nodes and the conditional edges that
  \<^verbatim>\<open>create_execution_graph\<close> declares: the node is run, then \<^verbatim>\<open>determine_next\<close>
  chooses the next node; \<^verbatim>\<open>complete\<close> returns the state. An exception of a node leaves
  the graph. The recursion terminates because every execution step lowers the weight of
  the queue.\<close>

function invoke ::
  "(job \<Rightarrow> py_exception + string) \<Rightarrow> scope \<Rightarrow> node \<Rightarrow> CyberAuditData \<Rightarrow> CyberAuditData raised" where
  "invoke ex sc Initiate data =
     (case plan_jobs sc data of
        Inl r \<Rightarrow> Inl r
      | Inr data1 \<Rightarrow> invoke ex sc (determine_next data1) data1)"
| "invoke ex sc Process data = invoke ex sc (determine_next (perform_task ex data)) (perform_task ex data)"
| "invoke ex sc Complete data = Inr data"
  by pat_completeness auto
termination
proof (relation "measures [\<lambda>(ex, sc, n, d). if n = Initiate then 1 else 0,
                           \<lambda>(ex, sc, n, d). weight (job_queue d),
                           \<lambda>(ex, sc, n, d). if n = Process then 1 else 0]")
  show "wf (measures [\<lambda>(ex, sc, n, d). if n = Initiate then 1 else (0::nat),
                      \<lambda>(ex, sc, n, d). weight (job_queue d),
                      \<lambda>(ex, sc, n, d). if n = Process then 1 else 0])"
    by simp
next
  fix ex :: "job \<Rightarrow> py_exception + string" and sc :: scope and data data1 :: CyberAuditData
  assume "plan_jobs sc data = Inr data1"
  show "((ex, sc, determine_next data1, data1), (ex, sc, Initiate, data))
        \<in> measures [\<lambda>(ex, sc, n, d). if n = Initiate then 1 else (0::nat),
                      \<lambda>(ex, sc, n, d). weight (job_queue d),
                      \<lambda>(ex, sc, n, d). if n = Process then 1 else 0]"
    by (simp add: determine_next_def)
next
  fix ex :: "job \<Rightarrow> py_exception + string" and sc :: scope and data :: CyberAuditData
  show "((ex, sc, determine_next (perform_task ex data), perform_task ex data), (ex, sc, Process, data))
        \<in> measures [\<lambda>(ex, sc, n, d). if n = Initiate then 1 else (0::nat),
                      \<lambda>(ex, sc, n, d). weight (job_queue d),
                      \<lambda>(ex, sc, n, d). if n = Process then 1 else 0]"
    by (cases "job_queue data")
       (auto simp: determine_next_def perform_task_def weight_def gobuster_job_def Let_def
             split: sum.splits)
qed

text \<open>\<^verbatim>\<open>run\<close>: the graph is entered at \<^verbatim>\<open>initiate\<close> with an empty queue and an empty
  log.\<close>

definition initial_data :: "scope \<Rightarrow> string \<Rightarrow> CyberAuditData" where
  "initial_data sc d = \<lparr>directive = d, job_queue = [], activity_logs = [], assessment_scope = sc\<rparr>"

definition run :: "(job \<Rightarrow> py_exception + string) \<Rightarrow> scope \<Rightarrow> string \<Rightarrow> CyberAuditData raised" where
  "run ex sc d = invoke ex sc Initiate (initial_data sc d)"

section \<open>Observing a run\<close>

text \<open>The entry that executing a job adds to the activity log: the output of the utility,
  or the failure entry built from the job and the exception.\<close>

definition log_entry :: "(job \<Rightarrow> py_exception + string) \<Rightarrow> job \<Rightarrow> string" where
  "log_entry ex j =
     (case ex j of
        Inr out \<Rightarrow> out
      | Inl e \<Rightarrow> ''Task failed: '' @ job_str j @ '' - '' @ exc_str e)"

text \<open>The jobs that the \<^verbatim>\<open>process\<close> node pops, in the order in which it pops them, when
  the graph stands at \<^verbatim>\<open>process\<close> with the given state: the front job, then the jobs
  popped from the state that \<^verbatim>\<open>perform_task\<close> leaves.\<close>

function executed :: "(job \<Rightarrow> py_exception + string) \<Rightarrow> CyberAuditData \<Rightarrow> job list" where
  "executed ex data =
     (case job_queue data of
        [] \<Rightarrow> []
      | j # rest \<Rightarrow> j # executed ex (perform_task ex data))"
  by pat_completeness auto
termination
proof (relation "measure (\<lambda>(ex, d). weight (job_queue d))")
  show "wf (measure (\<lambda>(ex, d). weight (job_queue d)))"
    by simp
next
  fix ex :: "job \<Rightarrow> py_exception + string" and data :: CyberAuditData and j rest
  assume "job_queue data = j # rest"
  then show "((ex, perform_task ex data), (ex, data)) \<in> measure (\<lambda>(ex, d). weight (job_queue d))"
    by (auto simp: perform_task_def weight_def gobuster_job_def Let_def split: sum.splits)
qed

declare executed.simps [simp del]

text \<open>The domains of the scope; a scope without the key has none.\<close>

definition scope_domains :: "scope \<Rightarrow> string list" where
  "scope_domains sc = (case sc ''domains'' of None \<Rightarrow> [] | Some ds \<Rightarrow> ds)"

text \<open>The configurations (node about to run, state) that the graph passes through when
  \<^verbatim>\<open>run\<close> is called with a directive.\<close>

inductive reachable ::
  "(job \<Rightarrow> py_exception + string) \<Rightarrow> scope \<Rightarrow> string \<Rightarrow> node \<Rightarrow> CyberAuditData \<Rightarrow> bool"
  for ex sc d where
  start: "reachable ex sc d Initiate (initial_data sc d)"
| planned: "reachable ex sc d Initiate s \<Longrightarrow> plan_jobs sc s = Inr s'
            \<Longrightarrow> reachable ex sc d (determine_next s') s'"
| performed: "reachable ex sc d Process s
            \<Longrightarrow> reachable ex sc d (determine_next (perform_task ex s)) (perform_task ex s)"

code_pred reachable .

section \<open>The example scope and directive\<close>

text \<open>The scope and the directive of the scenario: one domain, and a directive that
  triggers both planning rules.\<close>

abbreviation (input) example_scope :: scope where
  "example_scope \<equiv> [''domains'' \<mapsto> [''example.com'']]"

abbreviation (input) example_directive :: string where
  "example_directive \<equiv> ''Scan example.com for open ports and discover directories''"

abbreviation (input) example_state :: "job list \<Rightarrow> string list \<Rightarrow> CyberAuditData" where
  "example_state q l \<equiv>
     \<lparr>directive = example_directive, job_queue = q, activity_logs = l,
      assessment_scope = example_scope\<rparr>"

section \<open>Facts about one step and about the loop\<close>

lemma weight_perform_task:
  "job_queue data \<noteq> [] \<Longrightarrow> weight (job_queue (perform_task ex data)) < weight (job_queue data)"
  by (auto simp: perform_task_def weight_def gobuster_job_def Let_def
           split: list.splits sum.splits)

lemma perform_task_empty: "job_queue data = [] \<Longrightarrow> perform_task ex data = data"
  by (simp add: perform_task_def)

lemma perform_task_queue:
  "job_queue data = j # rest \<Longrightarrow>
   job_queue (perform_task ex data) =
     rest @ (case ex j of
               Inr out \<Rightarrow> if utility j = ''nmap'' \<and> (sublist ''80/tcp'' out \<or> sublist ''443/tcp'' out)
                          then [gobuster_job (target j)] else []
             | Inl e \<Rightarrow> [])"
  by (auto simp add: perform_task_def Let_def split: sum.splits)

lemma perform_task_logs:
  "job_queue data = j # rest \<Longrightarrow>
   activity_logs (perform_task ex data) = activity_logs data @ [log_entry ex j]"
  by (simp add: perform_task_def log_entry_def Let_def split: sum.splits)

lemma perform_task_frame:
  "directive (perform_task ex data) = directive data \<and>
   assessment_scope (perform_task ex data) = assessment_scope data"
  by (simp add: perform_task_def Let_def split: sum.splits list.splits)

lemma executed_Nil: "job_queue data = [] \<Longrightarrow> executed ex data = []"
  by (subst executed.simps) simp

lemma executed_Cons:
  "job_queue data = j # rest \<Longrightarrow> executed ex data = j # executed ex (perform_task ex data)"
  by (subst executed.simps) simp

lemma invoke_Process:
  "\<exists>final. invoke ex sc Process data = Inr final \<and> job_queue final = []
     \<and> activity_logs final = activity_logs data @ map (log_entry ex) (executed ex data)
     \<and> final = (perform_task ex ^^ length (executed ex data)) data"
proof (induction "weight (job_queue data)" arbitrary: data rule: less_induct)
  case less
  show ?case
  proof (cases "job_queue data")
    case Nil
    then show ?thesis
      by (simp add: perform_task_empty determine_next_def executed_Nil)
  next
    case (Cons j rest)
    let ?d = "perform_task ex data"
    have lt: "weight (job_queue ?d) < weight (job_queue data)"
      using Cons by (intro weight_perform_task) simp
    from less [OF lt] obtain final where
      f: "invoke ex sc Process ?d = Inr final" "job_queue final = []"
         "activity_logs final = activity_logs ?d @ map (log_entry ex) (executed ex ?d)"
         "final = (perform_task ex ^^ length (executed ex ?d)) ?d"
      by blast
    have step: "invoke ex sc Process data = invoke ex sc Process ?d"
    proof (cases "job_queue ?d = []")
      case True
      then show ?thesis by (simp add: determine_next_def perform_task_empty)
    next
      case False
      then show ?thesis by (simp add: determine_next_def)
    qed
    show ?thesis
      using f step Cons
      by (simp add: perform_task_logs executed_Cons funpow_swap1)
  qed
qed

lemma executed_le_weight: "length (executed ex data) \<le> weight (job_queue data)"
proof (induction "weight (job_queue data)" arbitrary: data rule: less_induct)
  case less
  show ?case
  proof (cases "job_queue data")
    case Nil
    then show ?thesis by (simp add: executed_Nil)
  next
    case (Cons j rest)
    have lt: "weight (job_queue (perform_task ex data)) < weight (job_queue data)"
      using Cons by (intro weight_perform_task) simp
    from less [OF lt] lt show ?thesis
      using Cons by (simp add: executed_Cons)
  qed
qed

lemma plan_jobs_queue:
  "job_queue data = [] \<Longrightarrow> first_domain sc = Inr t \<Longrightarrow>
   plan_jobs sc data =
     Inr (data\<lparr>job_queue := (if scan_requested (directive data) then [nmap_job t] else [])
                            @ (if discover_requested (directive data) then [gobuster_job t] else [])\<rparr>)"
  by (simp add: plan_jobs_def scan_rule_def discover_rule_def)

lemma plan_jobs_raises:
  "job_queue data = [] \<Longrightarrow> first_domain sc = Inl e \<Longrightarrow>
   scan_requested (directive data) \<or> discover_requested (directive data) \<Longrightarrow>
   plan_jobs sc data = Inl (e, data)"
  by (auto simp add: plan_jobs_def scan_rule_def discover_rule_def)

lemma plan_jobs_no_rule:
  "job_queue data = [] \<Longrightarrow> \<not> scan_requested (directive data) \<Longrightarrow>
   \<not> discover_requested (directive data) \<Longrightarrow> plan_jobs sc data = Inr data"
  by (simp add: plan_jobs_def scan_rule_def discover_rule_def)

lemma plan_jobs_nonempty: "job_queue data \<noteq> [] \<Longrightarrow> plan_jobs sc data = Inr data"
  by (simp add: plan_jobs_def)

lemma plan_jobs_Inr_cases:
  assumes "plan_jobs sc data = Inr d'" "job_queue data = []"
  shows "d' = data \<and> \<not> scan_requested (directive data) \<and> \<not> discover_requested (directive data)
       \<or> (\<exists>t. first_domain sc = Inr t \<and>
            d' = data\<lparr>job_queue := (if scan_requested (directive data) then [nmap_job t] else [])
                            @ (if discover_requested (directive data) then [gobuster_job t] else [])\<rparr>)"
  using assms
  by (cases "first_domain sc")
     (auto simp add: plan_jobs_def scan_rule_def discover_rule_def split: if_splits)

lemma planned_weight:
  assumes "plan_jobs sc data = Inr d'" "job_queue data = []"
  shows "weight (job_queue d') \<le> 3"
  using plan_jobs_Inr_cases [OF assms] assms(2)
  by (auto simp: weight_def nmap_job_def gobuster_job_def)


lemma logs_after_steps:
  "activity_logs ((perform_task ex ^^ k) s) = activity_logs s @ map (log_entry ex) (take k (executed ex s))"
proof (induction k arbitrary: s)
  case 0
  show ?case by simp
next
  case (Suc k)
  show ?case
  proof (cases "job_queue s")
    case Nil
    then show ?thesis
      using Suc [of s] by (simp add: funpow_swap1 perform_task_empty executed_Nil)
  next
    case (Cons j rest)
    then show ?thesis
      using Suc [of "perform_task ex s"]
      by (simp add: funpow_swap1 perform_task_logs executed_Cons)
  qed
qed

lemma first_domain_in_scope: "first_domain sc = Inr t \<Longrightarrow> t \<in> set (scope_domains sc)"
  by (auto simp: first_domain_def scope_domains_def split: option.splits list.splits)

lemma plan_jobs_targets:
  assumes "plan_jobs sc s = Inr s'" "j \<in> set (job_queue s')"
  shows "j \<in> set (job_queue s) \<or> target j \<in> set (scope_domains sc)"
proof (cases "job_queue s = []")
  case True
  from plan_jobs_Inr_cases [OF assms(1) True] assms(2) True show ?thesis
    by (auto simp: nmap_job_def gobuster_job_def first_domain_in_scope split: if_splits)
next
  case False
  then show ?thesis using assms by (simp add: plan_jobs_nonempty)
qed

lemma perform_task_targets:
  assumes "j \<in> set (job_queue (perform_task ex s))"
  shows "\<exists>j' \<in> set (job_queue s). target j = target j'"
proof (cases "job_queue s")
  case Nil
  then show ?thesis using assms by (simp add: perform_task_empty)
next
  case (Cons j0 rest)
  from assms perform_task_queue [OF Cons, of ex] Cons show ?thesis
    by (auto simp: gobuster_job_def split: sum.splits if_splits)
qed

lemma reachable_in_scope:
  "reachable ex sc d n s \<Longrightarrow> \<forall>j \<in> set (job_queue s). target j \<in> set (scope_domains sc)"
proof (induction rule: reachable.induct)
  case start
  show ?case by (simp add: initial_data_def)
next
  case (planned s s')
  then show ?case using plan_jobs_targets by blast
next
  case (performed s)
  then show ?case using perform_task_targets by metis
qed

text \<open>The state that a run returns is itself a configuration of the run.\<close>

lemma reachable_final:
  "reachable ex sc d n s \<Longrightarrow> invoke ex sc n s = Inr final \<Longrightarrow> reachable ex sc d Complete final"
proof (induction ex sc n s rule: invoke.induct)
  case (1 ex sc data)
  then show ?case
    by (auto split: sum.splits intro: reachable.planned)
next
  case (2 ex sc data)
  then show ?case
    by (auto intro: reachable.performed)
next
  case (3 ex sc data)
  then show ?case by simp
qed

lemma run_final_reachable:
  "run ex sc d = Inr final \<Longrightarrow> reachable ex sc d Complete final"
  unfolding run_def by (rule reachable_final [OF reachable.start])

lemma invoke_Initiate_raises:
  "plan_jobs sc data = Inl r \<Longrightarrow> invoke ex sc Initiate data = Inl r"
  by simp

lemma invoke_Initiate_planned:
  "plan_jobs sc data = Inr d0 \<Longrightarrow> invoke ex sc Initiate data = invoke ex sc Process d0"
proof (cases "job_queue d0 = []")
  case True
  assume "plan_jobs sc data = Inr d0"
  with True show ?thesis by (simp add: determine_next_def perform_task_empty)
next
  case False
  assume "plan_jobs sc data = Inr d0"
  with False show ?thesis by (simp add: determine_next_def)
qed

lemma first_domain_empty:
  "sc ''domains'' = Some [] \<Longrightarrow> first_domain sc = Inl (IndexError ''list index out of range'')"
  by (simp add: first_domain_def)

lemma first_domain_Cons: "sc ''domains'' = Some (t # ts) \<Longrightarrow> first_domain sc = Inr t"
  by (simp add: first_domain_def)

lemma executed_nth:
  "k < length (executed ex s) \<Longrightarrow>
   \<exists>rest. job_queue ((perform_task ex ^^ k) s) = executed ex s ! k # rest"
proof (induction k arbitrary: s)
  case 0
  then show ?case
    by (cases "job_queue s") (simp_all add: executed_Nil executed_Cons)
next
  case (Suc k)
  show ?case
  proof (cases "job_queue s")
    case Nil
    then show ?thesis using Suc.prems by (simp add: executed_Nil)
  next
    case (Cons j rest)
    then have "k < length (executed ex (perform_task ex s))"
      using Suc.prems by (simp add: executed_Cons)
    from Suc.IH [OF this] show ?thesis
      using Cons by (simp add: funpow_swap1 executed_Cons)
  qed
qed

section \<open>Facts about the scenario\<close>

lemma example_requested:
  "scan_requested example_directive" "discover_requested example_directive"
  by code_simp+

lemma example_plan:
  "plan_jobs example_scope (initial_data example_scope example_directive)
     = Inr (example_state [nmap_job ''example.com'', gobuster_job ''example.com''] [])"
proof -
  have "first_domain example_scope = Inr ''example.com''"
    by (simp add: first_domain_def)
  then show ?thesis
    using example_requested by (simp add: plan_jobs_queue initial_data_def)
qed

lemma example_outputs:
  "run_utility (nmap_job ''example.com'') = Inr (simulate_nmap_scan ''example.com'')"
  "run_utility (gobuster_job ''example.com'') = Inr (simulate_gobuster_scan ''example.com'')"
  "sublist ''80/tcp'' (simulate_nmap_scan ''example.com'')"
  "sublist ''443/tcp'' (simulate_nmap_scan ''example.com'')"
  by code_simp+

lemma example_utilities:
  "utility (nmap_job t) = ''nmap''" "target (nmap_job t) = t"
  "utility (gobuster_job t) = ''gobuster''" "target (gobuster_job t) = t"
  by (simp_all add: nmap_job_def gobuster_job_def)

lemma example_step1:
  "perform_task run_utility (example_state [nmap_job ''example.com'', gobuster_job ''example.com''] [])
     = example_state [gobuster_job ''example.com'', gobuster_job ''example.com'']
         [simulate_nmap_scan ''example.com'']"
  by (simp add: perform_task_def example_outputs example_utilities)

lemma example_step2:
  "perform_task run_utility
     (example_state [gobuster_job ''example.com'', gobuster_job ''example.com'']
        [simulate_nmap_scan ''example.com''])
     = example_state [gobuster_job ''example.com'']
         [simulate_nmap_scan ''example.com'', simulate_gobuster_scan ''example.com'']"
  by (simp add: perform_task_def example_outputs example_utilities)

lemma example_step3:
  "perform_task run_utility
     (example_state [gobuster_job ''example.com'']
        [simulate_nmap_scan ''example.com'', simulate_gobuster_scan ''example.com''])
     = example_state []
         [simulate_nmap_scan ''example.com'', simulate_gobuster_scan ''example.com'',
          simulate_gobuster_scan ''example.com'']"
  by (simp add: perform_task_def example_outputs example_utilities)

lemma example_executed:
  "executed run_utility (example_state [nmap_job ''example.com'', gobuster_job ''example.com''] [])
     = [nmap_job ''example.com'', gobuster_job ''example.com'', gobuster_job ''example.com'']"
  by (simp add: executed_Cons executed_Nil example_step1 example_step2 example_step3)

lemma example_run:
  "run run_utility example_scope example_directive
     = Inr (example_state []
         [simulate_nmap_scan ''example.com'', simulate_gobuster_scan ''example.com'',
          simulate_gobuster_scan ''example.com''])"
proof -
  have "run run_utility example_scope example_directive
      = invoke run_utility example_scope Process
          (example_state [nmap_job ''example.com'', gobuster_job ''example.com''] [])"
    unfolding run_def by (rule invoke_Initiate_planned [OF example_plan])
  also have "\<dots> = invoke run_utility example_scope Process
          (example_state [gobuster_job ''example.com'', gobuster_job ''example.com'']
            [simulate_nmap_scan ''example.com''])"
    by (subst invoke.simps(2)) (simp only: example_step1, simp add: determine_next_def)
  also have "\<dots> = invoke run_utility example_scope Process
          (example_state [gobuster_job ''example.com'']
            [simulate_nmap_scan ''example.com'', simulate_gobuster_scan ''example.com''])"
    by (subst invoke.simps(2)) (simp only: example_step2, simp add: determine_next_def)
  also have "\<dots> = invoke run_utility example_scope Complete
          (example_state []
            [simulate_nmap_scan ''example.com'', simulate_gobuster_scan ''example.com'',
             simulate_gobuster_scan ''example.com''])"
    by (subst invoke.simps(2)) (simp only: example_step3, simp add: determine_next_def)
  finally show ?thesis by simp
qed

section \<open>Planning with an empty list of domains\<close>

text \<open>
  Claim C1, as amended. When a planning rule that needs a target fires (the lowered
  directive has "scan" and "ports", or has "discover directories"), the queue is empty and
  the list of domains of the scope is empty, \<^verbatim>\<open>plan_jobs\<close> appends no job and does not
  return: indexing the empty list raises \<^verbatim>\<open>IndexError\<close>, nothing catches it, and the
  graph is left with that exception. The claim as written (planning is a silent no-op that
  returns normally) fails at the directive "scan ports".
\<close>

theorem plan_jobs_empty_domains_raises:
  assumes "job_queue data = []" and "sc ''domains'' = Some []"
    and "scan_requested (directive data) \<or> discover_requested (directive data)"
  shows "plan_jobs sc data = Inl (IndexError ''list index out of range'', data)
       \<and> invoke ex sc Initiate data = Inl (IndexError ''list index out of range'', data)"
proof -
  have "plan_jobs sc data = Inl (IndexError ''list index out of range'', data)"
    using assms by (intro plan_jobs_raises first_domain_empty)
  then show ?thesis by simp
qed

theorem plan_jobs_empty_domains_raises_witness:
  "job_queue (initial_data [''domains'' \<mapsto> []] ''Discover Directories'') = []
   \<and> [''domains'' \<mapsto> ([] :: string list)] ''domains'' = Some []
   \<and> discover_requested ''Discover Directories''
   \<and> plan_jobs [''domains'' \<mapsto> []] (initial_data [''domains'' \<mapsto> []] ''Discover Directories'')
       = Inl (IndexError ''list index out of range'',
              initial_data [''domains'' \<mapsto> []] ''Discover Directories'')
   \<and> run run_utility [''domains'' \<mapsto> []] ''Discover Directories''
       = Inl (IndexError ''list index out of range'',
              initial_data [''domains'' \<mapsto> []] ''Discover Directories'')"
proof -
  have q: "job_queue (initial_data [''domains'' \<mapsto> []] ''Discover Directories'') = []"
    by (simp add: initial_data_def)
  have s: "[''domains'' \<mapsto> ([] :: string list)] ''domains'' = Some []"
    by simp
  have r: "discover_requested ''Discover Directories''"
    by code_simp
  then have r': "scan_requested (directive (initial_data [''domains'' \<mapsto> []] ''Discover Directories''))
      \<or> discover_requested (directive (initial_data [''domains'' \<mapsto> []] ''Discover Directories''))"
    by (simp add: initial_data_def)
  show ?thesis
    using plan_jobs_empty_domains_raises
            [where sc = "[''domains'' \<mapsto> []]"
               and data = "initial_data [''domains'' \<mapsto> []] ''Discover Directories''"
               and ex = run_utility, OF q s r'] q s r
    by (simp add: run_def)
qed

text \<open>The directive "scan ports" with an empty list of domains: the rule fires and
  \<^verbatim>\<open>plan_jobs\<close> raises.\<close>

theorem plan_jobs_empty_domains_counterexample:
  "scan_requested ''scan ports'' \<and>
   plan_jobs [''domains'' \<mapsto> []] (initial_data [''domains'' \<mapsto> []] ''scan ports'')
     = Inl (IndexError ''list index out of range'',
            initial_data [''domains'' \<mapsto> []] ''scan ports'')"
proof -
  have req: "scan_requested ''scan ports''"
    by code_simp
  have "first_domain [''domains'' \<mapsto> []] = Inl (IndexError ''list index out of range'')"
    by (simp add: first_domain_def)
  with req show ?thesis
    by (simp add: plan_jobs_raises initial_data_def)
qed

section \<open>The branching rule\<close>

text \<open>
  Claim C2. When the front job is executed and the utility returns an output: if the job's
  utility is \<^verbatim>\<open>nmap\<close> and the output contains "80/tcp" or "443/tcp", the queue after
  the step is the rest of the queue followed by exactly one \<^verbatim>\<open>gobuster\<close> job for the
  same target (one job, also when both substrings occur); otherwise it is the rest of the
  queue, with nothing appended.
\<close>

theorem perform_task_branching:
  assumes "job_queue data = j # rest" and "ex j = Inr out"
  shows "job_queue (perform_task ex data) =
           rest @ (if utility j = ''nmap'' \<and> (sublist ''80/tcp'' out \<or> sublist ''443/tcp'' out)
                   then [\<lparr>utility = ''gobuster'', target = target j,
                           parameters = ''dir -u http://{target} -w /usr/share/wordlists/dirb/common.txt''\<rparr>]
                   else [])"
  using perform_task_queue [OF assms(1), of ex] assms(2)
  by (simp add: gobuster_job_def)

theorem perform_task_branching_witness:
  "job_queue \<lparr>directive = ''scan ports'', job_queue = [nmap_job ''example.com'', gobuster_job ''example.com''],
              activity_logs = [], assessment_scope = Map.empty\<rparr>
     = nmap_job ''example.com'' # [gobuster_job ''example.com'']
   \<and> run_utility (nmap_job ''example.com'') = Inr (simulate_nmap_scan ''example.com'')
   \<and> sublist ''80/tcp'' (simulate_nmap_scan ''example.com'')
   \<and> sublist ''443/tcp'' (simulate_nmap_scan ''example.com'')
   \<and> job_queue (perform_task run_utility
        \<lparr>directive = ''scan ports'', job_queue = [nmap_job ''example.com'', gobuster_job ''example.com''],
         activity_logs = [], assessment_scope = Map.empty\<rparr>)
     = [gobuster_job ''example.com'', gobuster_job ''example.com'']"
proof -
  have q: "job_queue \<lparr>directive = ''scan ports'', job_queue = [nmap_job ''example.com'', gobuster_job ''example.com''],
              activity_logs = [], assessment_scope = Map.empty\<rparr>
     = nmap_job ''example.com'' # [gobuster_job ''example.com'']"
    by simp
  have r: "run_utility (nmap_job ''example.com'') = Inr (simulate_nmap_scan ''example.com'')"
    by code_simp
  have s1: "sublist ''80/tcp'' (simulate_nmap_scan ''example.com'')"
    by code_simp
  have s2: "sublist ''443/tcp'' (simulate_nmap_scan ''example.com'')"
    by code_simp
  have u: "utility (nmap_job ''example.com'') = ''nmap''" "target (nmap_job ''example.com'') = ''example.com''"
    by (simp_all add: nmap_job_def)
  show ?thesis
    using perform_task_branching
            [where ex = run_utility and j = "nmap_job ''example.com''"
               and rest = "[gobuster_job ''example.com'']"
               and out = "simulate_nmap_scan ''example.com''", OF q r] r s1 s2 u
    by (simp add: gobuster_job_def)
qed

section \<open>A failing job\<close>

text \<open>
  Claim C3. When the utility raises on the front job, \<^verbatim>\<open>perform_task\<close> catches the
  exception: the job is popped, exactly one entry "Task failed: job - reason" is appended to
  the activity log, nothing is appended to the queue, and the graph goes on from
  \<^verbatim>\<open>process\<close> to the next queued job (or to \<^verbatim>\<open>complete\<close> when none is left) and
  returns a state; it does not end with an exception.
\<close>

theorem perform_task_failure:
  assumes "job_queue data = j # rest" and "ex j = Inl e"
  shows "perform_task ex data =
           data\<lparr>job_queue := rest,
                activity_logs := activity_logs data
                  @ [''Task failed: '' @ job_str j @ '' - '' @ exc_str e]\<rparr>
       \<and> invoke ex sc Process data =
           invoke ex sc (if rest = [] then Complete else Process) (perform_task ex data)
       \<and> (\<exists>final. invoke ex sc Process data = Inr final)"
proof -
  have p: "perform_task ex data =
           data\<lparr>job_queue := rest,
                activity_logs := activity_logs data
                  @ [''Task failed: '' @ job_str j @ '' - '' @ exc_str e]\<rparr>"
    using assms by (simp add: perform_task_def)
  have "determine_next (perform_task ex data) = (if rest = [] then Complete else Process)"
    by (simp add: p determine_next_def)
  then have "invoke ex sc Process data =
           invoke ex sc (if rest = [] then Complete else Process) (perform_task ex data)"
    by (subst invoke.simps(2)) simp
  moreover have "\<exists>final. invoke ex sc Process data = Inr final"
    using invoke_Process [of ex sc data] by blast
  ultimately show ?thesis using p by blast
qed

theorem perform_task_failure_witness:
  "job_queue \<lparr>directive = ''scan ports'',
              job_queue = [\<lparr>utility = ''nmap'', target = ''example.com'', parameters = ''-p {port}''\<rparr>],
              activity_logs = [''earlier entry''], assessment_scope = Map.empty\<rparr>
     = \<lparr>utility = ''nmap'', target = ''example.com'', parameters = ''-p {port}''\<rparr> # []
   \<and> run_utility \<lparr>utility = ''nmap'', target = ''example.com'', parameters = ''-p {port}''\<rparr>
       = Inl (KeyError ''port'')
   \<and> perform_task run_utility
        \<lparr>directive = ''scan ports'',
         job_queue = [\<lparr>utility = ''nmap'', target = ''example.com'', parameters = ''-p {port}''\<rparr>],
         activity_logs = [''earlier entry''], assessment_scope = Map.empty\<rparr>
     = \<lparr>directive = ''scan ports'', job_queue = [],
        activity_logs = [''earlier entry'',
          ''Task failed: {'utility': 'nmap', 'target': 'example.com', 'parameters': '-p {port}'} - 'port'' @ [sq]],
        assessment_scope = Map.empty\<rparr>
   \<and> invoke run_utility Map.empty Process
        \<lparr>directive = ''scan ports'',
         job_queue = [\<lparr>utility = ''nmap'', target = ''example.com'', parameters = ''-p {port}''\<rparr>],
         activity_logs = [''earlier entry''], assessment_scope = Map.empty\<rparr>
     = Inr \<lparr>directive = ''scan ports'', job_queue = [],
        activity_logs = [''earlier entry'',
          ''Task failed: {'utility': 'nmap', 'target': 'example.com', 'parameters': '-p {port}'} - 'port'' @ [sq]],
        assessment_scope = Map.empty\<rparr>"
proof -
  let ?j = "\<lparr>utility = ''nmap'', target = ''example.com'', parameters = ''-p {port}''\<rparr>"
  let ?d = "\<lparr>directive = ''scan ports'', job_queue = [?j],
         activity_logs = [''earlier entry''], assessment_scope = Map.empty :: scope\<rparr>"
  have q: "job_queue ?d = ?j # []"
    by simp
  have r: "run_utility ?j = Inl (KeyError ''port'')"
    by code_simp
  have e: "''Task failed: '' @ job_str ?j @ '' - '' @ exc_str (KeyError ''port'')
      = ''Task failed: {'utility': 'nmap', 'target': 'example.com', 'parameters': '-p {port}'} - 'port'' @ [sq]"
    by code_simp
  note T = perform_task_failure
            [where ex = run_utility and data = ?d and j = ?j and rest = "[]"
               and e = "KeyError ''port''" and sc = Map.empty, OF q r]
  have p: "perform_task run_utility ?d
     = \<lparr>directive = ''scan ports'', job_queue = [],
        activity_logs = [''earlier entry'',
          ''Task failed: {'utility': 'nmap', 'target': 'example.com', 'parameters': '-p {port}'} - 'port'' @ [sq]],
        assessment_scope = Map.empty\<rparr>"
    by (subst conjunct1 [OF T], subst e) simp
  have i: "invoke run_utility Map.empty Process ?d = Inr (perform_task run_utility ?d)"
    by (subst conjunct1 [OF conjunct2 [OF T]]) simp
  show ?thesis
    by (intro conjI) (rule q r p, rule q r p, rule q r p, simp only: i p)
qed

section \<open>The activity log\<close>

text \<open>
  Claim C4. In a run whose planning returns, the final activity log has one entry for each
  job that was popped and executed, follow-on jobs included, in the order of execution, so
  its length is the number of executed jobs. After any number \<open>k\<close> of execution steps the
  log is the entries of the first \<open>k\<close> executed jobs: each step appends one entry and
  leaves the earlier ones as they are. The \<open>k\<close>-th executed job is the job at the front
  of the queue after \<open>k\<close> steps.
\<close>

theorem activity_log_follows_execution:
  assumes "plan_jobs sc (initial_data sc d) = Inr d0"
  shows "\<exists>final. run ex sc d = Inr final
           \<and> final = (perform_task ex ^^ length (executed ex d0)) d0
           \<and> activity_logs final = map (log_entry ex) (executed ex d0)
           \<and> length (activity_logs final) = length (executed ex d0)
           \<and> (\<forall>k. activity_logs ((perform_task ex ^^ k) d0)
                     = map (log_entry ex) (take k (executed ex d0)))
           \<and> (\<forall>k < length (executed ex d0).
                 \<exists>rest. job_queue ((perform_task ex ^^ k) d0) = executed ex d0 ! k # rest)"
proof -
  have init: "job_queue (initial_data sc d) = []" "activity_logs (initial_data sc d) = []"
    by (simp_all add: initial_data_def)
  have logs0: "activity_logs d0 = []"
    using plan_jobs_Inr_cases [OF assms init(1)] init(2) by auto
  obtain final where f: "invoke ex sc Process d0 = Inr final"
      "activity_logs final = activity_logs d0 @ map (log_entry ex) (executed ex d0)"
      "final = (perform_task ex ^^ length (executed ex d0)) d0"
    using invoke_Process [of ex sc d0] by blast
  have "run ex sc d = Inr final"
    using f(1) invoke_Initiate_planned [OF assms, of ex] by (simp add: run_def)
  moreover have "\<forall>k. activity_logs ((perform_task ex ^^ k) d0)
                     = map (log_entry ex) (take k (executed ex d0))"
    using logs_after_steps [where ex = ex and s = d0] logs0 by simp
  moreover have "\<forall>k < length (executed ex d0).
                 \<exists>rest. job_queue ((perform_task ex ^^ k) d0) = executed ex d0 ! k # rest"
    using executed_nth [where ex = ex and s = d0] by blast
  ultimately show ?thesis using f logs0 by simp
qed

theorem activity_log_follows_execution_witness:
  "plan_jobs example_scope (initial_data example_scope example_directive)
     = Inr (example_state [nmap_job ''example.com'', gobuster_job ''example.com''] [])
   \<and> executed run_utility (example_state [nmap_job ''example.com'', gobuster_job ''example.com''] [])
     = [nmap_job ''example.com'', gobuster_job ''example.com'', gobuster_job ''example.com'']
   \<and> (\<exists>final. run run_utility example_scope example_directive = Inr final
         \<and> activity_logs final
             = map (log_entry run_utility)
                 [nmap_job ''example.com'', gobuster_job ''example.com'', gobuster_job ''example.com'']
         \<and> length (activity_logs final) = 3)"
proof -
  from activity_log_follows_execution [OF example_plan, of run_utility]
  obtain final where "run run_utility example_scope example_directive = Inr final"
    and "activity_logs final = map (log_entry run_utility)
           (executed run_utility (example_state [nmap_job ''example.com'', gobuster_job ''example.com''] []))"
    by blast
  then have "\<exists>final. run run_utility example_scope example_directive = Inr final
         \<and> activity_logs final
             = map (log_entry run_utility)
                 [nmap_job ''example.com'', gobuster_job ''example.com'', gobuster_job ''example.com'']
         \<and> length (activity_logs final) = 3"
    by (simp add: example_executed)
  then show ?thesis
    using example_plan example_executed by blast
qed

section \<open>The planning rules\<close>

text \<open>
  Claim C5. When the queue is empty, the lowered directive contains "scan" and "ports", and
  the scope has a non-empty list of domains, \<^verbatim>\<open>plan_jobs\<close> returns a queue with exactly
  one \<^verbatim>\<open>nmap\<close> job; its target is the first domain and its parameters are the fixed
  port list. The job is emitted whether or not the directive also asks to discover
  directories, and the directory job follows it exactly when the lowered directive
  contains "discover directories".
\<close>

theorem plan_jobs_scan_ports:
  assumes "job_queue data = []"
    and "sublist ''scan'' (lower (directive data))"
    and "sublist ''ports'' (lower (directive data))"
    and "sc ''domains'' = Some (t # ts)"
  shows "\<exists>d'. plan_jobs sc data = Inr d'
           \<and> job_queue d' =
               \<lparr>utility = ''nmap'', target = t, parameters = ''-Pn -p 80,443,22,8080''\<rparr>
                 # (if sublist ''discover directories'' (lower (directive data))
                    then [gobuster_job t] else [])
           \<and> filter (\<lambda>j. utility j = ''nmap'') (job_queue d') =
               [\<lparr>utility = ''nmap'', target = t, parameters = ''-Pn -p 80,443,22,8080''\<rparr>]"
proof -
  have "scan_requested (directive data)"
    using assms(2,3) by (simp add: scan_requested_def)
  then show ?thesis
    using plan_jobs_queue [OF assms(1) first_domain_Cons [where sc = sc, OF assms(4)]]
    by (simp add: nmap_job_def gobuster_job_def discover_requested_def)
qed

theorem plan_jobs_scan_ports_witness:
  "job_queue (initial_data [''domains'' \<mapsto> [''a.example'', ''b.example'']] ''SCAN all PORTS'') = []
   \<and> sublist ''scan'' (lower ''SCAN all PORTS'')
   \<and> sublist ''ports'' (lower ''SCAN all PORTS'')
   \<and> [''domains'' \<mapsto> [''a.example'', ''b.example'']] ''domains'' = Some (''a.example'' # [''b.example''])
   \<and> (\<exists>d'. plan_jobs [''domains'' \<mapsto> [''a.example'', ''b.example'']]
              (initial_data [''domains'' \<mapsto> [''a.example'', ''b.example'']] ''SCAN all PORTS'') = Inr d'
         \<and> job_queue d' =
             [\<lparr>utility = ''nmap'', target = ''a.example'', parameters = ''-Pn -p 80,443,22,8080''\<rparr>])"
proof -
  let ?sc = "[''domains'' \<mapsto> [''a.example'', ''b.example'']] :: scope"
  let ?d = "initial_data ?sc ''SCAN all PORTS''"
  have q: "job_queue ?d = []"
    by (simp add: initial_data_def)
  have dir: "directive ?d = ''SCAN all PORTS''"
    by (simp add: initial_data_def)
  have s1: "sublist ''scan'' (lower ''SCAN all PORTS'')"
    by code_simp
  have s2: "sublist ''ports'' (lower ''SCAN all PORTS'')"
    by code_simp
  have s3: "\<not> sublist ''discover directories'' (lower ''SCAN all PORTS'')"
    by code_simp
  have dom: "?sc ''domains'' = Some (''a.example'' # [''b.example''])"
    by simp
  have "\<exists>d'. plan_jobs ?sc ?d = Inr d'
         \<and> job_queue d' =
             [\<lparr>utility = ''nmap'', target = ''a.example'', parameters = ''-Pn -p 80,443,22,8080''\<rparr>]"
    using plan_jobs_scan_ports
            [where data = ?d and sc = ?sc and t = "''a.example''" and ts = "[''b.example'']",
             OF q _ _ dom] s1 s2 s3
    by (simp only: dir if_False) blast
  then show ?thesis
    using q s1 s2 dom by blast
qed

text \<open>
  Claim C6. When the lowered directive has neither "scan" together with "ports" nor
  "discover directories", planning leaves the queue empty, the edge after
  \<^verbatim>\<open>initiate\<close> goes to \<^verbatim>\<open>complete\<close>, and the run returns the initial state, whose
  activity log is empty. No scope is needed for this.
\<close>

theorem no_rule_run_completes:
  assumes "\<not> (sublist ''scan'' (lower d) \<and> sublist ''ports'' (lower d))"
    and "\<not> sublist ''discover directories'' (lower d)"
  shows "plan_jobs sc (initial_data sc d) = Inr (initial_data sc d)
       \<and> job_queue (initial_data sc d) = []
       \<and> determine_next (initial_data sc d) = Complete
       \<and> run ex sc d = Inr (initial_data sc d)
       \<and> activity_logs (initial_data sc d) = []"
proof -
  have "plan_jobs sc (initial_data sc d) = Inr (initial_data sc d)"
    using assms
    by (intro plan_jobs_no_rule)
       (simp_all add: initial_data_def scan_requested_def discover_requested_def)
  then show ?thesis
    by (simp add: run_def determine_next_def initial_data_def)
qed

theorem no_rule_run_completes_witness:
  "\<not> (sublist ''scan'' (lower ''Scan the host'') \<and> sublist ''ports'' (lower ''Scan the host''))
   \<and> \<not> sublist ''discover directories'' (lower ''Scan the host'')
   \<and> plan_jobs Map.empty (initial_data Map.empty ''Scan the host'')
       = Inr (initial_data Map.empty ''Scan the host'')
   \<and> run run_utility Map.empty ''Scan the host''
       = Inr \<lparr>directive = ''Scan the host'', job_queue = [], activity_logs = [],
              assessment_scope = Map.empty\<rparr>"
proof -
  have a: "\<not> (sublist ''scan'' (lower ''Scan the host'') \<and> sublist ''ports'' (lower ''Scan the host''))"
    by code_simp
  have b: "\<not> sublist ''discover directories'' (lower ''Scan the host'')"
    by code_simp
  show ?thesis
    using no_rule_run_completes [OF a b, of Map.empty run_utility] a b
    by (simp add: initial_data_def)
qed

section \<open>The scenario of the specification\<close>

text \<open>
  Claim C7. For the directive "Scan example.com for open ports and discover directories"
  and the scope with the one domain example.com: planning gives the queue
  [nmap, gobuster] for example.com; the simulated output of the port scan contains both
  "80/tcp" and "443/tcp", and executing it leaves [gobuster, gobuster] with one log entry;
  three jobs are executed in all, and the final log is the port-scan output followed by
  the directory output twice.
\<close>

theorem scenario_example_com:
  "plan_jobs example_scope (initial_data example_scope example_directive)
     = Inr (example_state [nmap_job ''example.com'', gobuster_job ''example.com''] [])
   \<and> run_utility (nmap_job ''example.com'') = Inr (simulate_nmap_scan ''example.com'')
   \<and> sublist ''80/tcp'' (simulate_nmap_scan ''example.com'')
   \<and> sublist ''443/tcp'' (simulate_nmap_scan ''example.com'')
   \<and> perform_task run_utility
        (example_state [nmap_job ''example.com'', gobuster_job ''example.com''] [])
     = example_state [gobuster_job ''example.com'', gobuster_job ''example.com'']
         [simulate_nmap_scan ''example.com'']
   \<and> executed run_utility (example_state [nmap_job ''example.com'', gobuster_job ''example.com''] [])
     = [nmap_job ''example.com'', gobuster_job ''example.com'', gobuster_job ''example.com'']
   \<and> run run_utility example_scope example_directive
     = Inr (example_state []
         [simulate_nmap_scan ''example.com'', simulate_gobuster_scan ''example.com'',
          simulate_gobuster_scan ''example.com''])"
  by (intro conjI example_plan example_outputs example_step1 example_executed example_run)

section \<open>Targets stay in scope\<close>

text \<open>
  Claim C8. In every configuration that a run passes through, every job in the queue,
  planned or appended by the branching rule, has a target that is one of the domains of
  the run's scope.
\<close>

theorem reachable_targets_in_scope:
  assumes "reachable ex sc d n s" and "j \<in> set (job_queue s)"
  shows "target j \<in> set (scope_domains sc)"
  using reachable_in_scope [OF assms(1)] assms(2) by blast

theorem reachable_targets_in_scope_witness:
  "reachable run_utility example_scope example_directive Process
     (example_state [gobuster_job ''example.com'', gobuster_job ''example.com'']
        [simulate_nmap_scan ''example.com''])
   \<and> gobuster_job ''example.com''
       \<in> set (job_queue (example_state [gobuster_job ''example.com'', gobuster_job ''example.com'']
                          [simulate_nmap_scan ''example.com'']))
   \<and> target (gobuster_job ''example.com'') \<in> set (scope_domains example_scope)
   \<and> scope_domains example_scope = [''example.com'']"
proof -
  have r0: "reachable run_utility example_scope example_directive Initiate
              (initial_data example_scope example_directive)"
    by (rule reachable.start)
  have r1: "reachable run_utility example_scope example_directive Process
              (example_state [nmap_job ''example.com'', gobuster_job ''example.com''] [])"
    using reachable.planned [OF r0 example_plan] by (simp add: determine_next_def)
  have r2: "reachable run_utility example_scope example_directive Process
     (example_state [gobuster_job ''example.com'', gobuster_job ''example.com'']
        [simulate_nmap_scan ''example.com''])"
    using reachable.performed [OF r1] by (simp only: example_step1) (simp add: determine_next_def)
  have m: "gobuster_job ''example.com''
       \<in> set (job_queue (example_state [gobuster_job ''example.com'', gobuster_job ''example.com'']
                          [simulate_nmap_scan ''example.com'']))"
    by simp
  have "scope_domains example_scope = [''example.com'']"
    by (simp add: scope_domains_def)
  then show ?thesis
    using reachable_targets_in_scope [OF r2 m] r2 m by blast
qed

section \<open>Planning depends on the directive and the scope only\<close>

text \<open>
  Claim C9. Planning on two states with an empty queue and the same directive, under the
  same scope, gives the same outcome: the same exception, or equal job sequences. The
  activity log and the other fields of the state play no part.
\<close>

theorem plan_jobs_deterministic:
  assumes "job_queue d1 = []" and "job_queue d2 = []" and "directive d1 = directive d2"
  shows "map_sum fst job_queue (plan_jobs sc d1) = map_sum fst job_queue (plan_jobs sc d2)"
proof (cases "first_domain sc")
  case (Inl e)
  show ?thesis
  proof (cases "scan_requested (directive d1) \<or> discover_requested (directive d1)")
    case True
    then show ?thesis
      using assms Inl plan_jobs_raises [of d1 sc e] plan_jobs_raises [of d2 sc e] by simp
  next
    case False
    then show ?thesis
      using assms plan_jobs_no_rule [of d1 sc] plan_jobs_no_rule [of d2 sc] by simp
  qed
next
  case (Inr t)
  then show ?thesis
    using assms plan_jobs_queue [of d1 sc t] plan_jobs_queue [of d2 sc t] by simp
qed

theorem plan_jobs_deterministic_witness:
  "job_queue (initial_data example_scope example_directive) = []
   \<and> job_queue \<lparr>directive = example_directive, job_queue = [], activity_logs = [''an entry''],
                assessment_scope = Map.empty\<rparr> = []
   \<and> directive (initial_data example_scope example_directive)
       = directive \<lparr>directive = example_directive, job_queue = [], activity_logs = [''an entry''],
                    assessment_scope = Map.empty\<rparr>
   \<and> map_sum fst job_queue
        (plan_jobs example_scope
           \<lparr>directive = example_directive, job_queue = [], activity_logs = [''an entry''],
            assessment_scope = Map.empty\<rparr>)
       = Inr [nmap_job ''example.com'', gobuster_job ''example.com'']"
proof -
  let ?d2 = "\<lparr>directive = example_directive, job_queue = [], activity_logs = [''an entry''],
                assessment_scope = Map.empty :: scope\<rparr>"
  have a: "job_queue (initial_data example_scope example_directive) = []"
    by (simp add: initial_data_def)
  have b: "job_queue ?d2 = []"
    by simp
  have c: "directive (initial_data example_scope example_directive) = directive ?d2"
    by (simp add: initial_data_def)
  have "map_sum fst job_queue (plan_jobs example_scope ?d2)
       = Inr [nmap_job ''example.com'', gobuster_job ''example.com'']"
    using plan_jobs_deterministic [OF a b c, of example_scope]
    by (simp add: example_plan)
  then show ?thesis using a b c by blast
qed

section \<open>Termination\<close>

text \<open>
  Claim C10. Every run ends. Either planning raises and the run ends with that exception
  before any job is executed, or planning returns a queue with at most one
  \<^verbatim>\<open>nmap\<close> job, at most three jobs are popped and executed, and the run returns the
  state reached after those steps, whose queue is empty.
\<close>

theorem run_executes_at_most_three_jobs:
  "(case plan_jobs sc (initial_data sc d) of
      Inl r \<Rightarrow> run ex sc d = Inl r
    | Inr d0 \<Rightarrow>
        length (filter (\<lambda>j. utility j = ''nmap'') (job_queue d0)) \<le> 1
        \<and> length (executed ex d0) \<le> 3
        \<and> (\<exists>final. run ex sc d = Inr final \<and> job_queue final = []
              \<and> final = (perform_task ex ^^ length (executed ex d0)) d0))"
proof (cases "plan_jobs sc (initial_data sc d)")
  case (Inl r)
  then show ?thesis by (simp add: run_def)
next
  case (Inr d0)
  have q: "job_queue (initial_data sc d) = []"
    by (simp add: initial_data_def)
  have "length (executed ex d0) \<le> 3"
    using executed_le_weight [of ex d0] planned_weight [OF Inr q] by simp
  moreover have "length (filter (\<lambda>j. utility j = ''nmap'') (job_queue d0)) \<le> 1"
    using plan_jobs_Inr_cases [OF Inr q] q
    by (auto simp: nmap_job_def gobuster_job_def)
  moreover have "\<exists>final. run ex sc d = Inr final \<and> job_queue final = []
              \<and> final = (perform_task ex ^^ length (executed ex d0)) d0"
    using invoke_Process [of ex sc d0] invoke_Initiate_planned [OF Inr, of ex]
    by (auto simp: run_def)
  ultimately show ?thesis using Inr by simp
qed

theorem run_executes_at_most_three_jobs_witness:
  "plan_jobs example_scope (initial_data example_scope example_directive)
     = Inr (example_state [nmap_job ''example.com'', gobuster_job ''example.com''] [])
   \<and> length (executed run_utility
        (example_state [nmap_job ''example.com'', gobuster_job ''example.com''] [])) = 3
   \<and> length (executed run_utility
        (example_state [nmap_job ''example.com'', gobuster_job ''example.com''] [])) \<le> 3
   \<and> (\<exists>final. run run_utility example_scope example_directive = Inr final \<and> job_queue final = [])"
proof -
  have "length (executed run_utility
        (example_state [nmap_job ''example.com'', gobuster_job ''example.com''] [])) \<le> 3
     \<and> (\<exists>final. run run_utility example_scope example_directive = Inr final \<and> job_queue final = [])"
    using run_executes_at_most_three_jobs
            [where sc = example_scope and d = example_directive and ex = run_utility]
    by (simp only: example_plan sum.case) blast
  moreover have "length (executed run_utility
        (example_state [nmap_job ''example.com'', gobuster_job ''example.com''] [])) = 3"
    by (simp add: example_executed)
  ultimately show ?thesis using example_plan by blast
qed

end
